theory Spec2Isabelle
  imports Complex_Main
begin

section \<open>Values shared by the three services\<close>

text \<open>
  A Go \<^verbatim>\<open>error\<close> is an opaque value whose only observable part is the text returned
  by \<^verbatim>\<open>err.Error()\<close>.
\<close>

datatype err = Err string

fun Error_text :: "err \<Rightarrow> string" where
  "Error_text (Err s) = s"

text \<open>
  The column \<^verbatim>\<open>status TEXT CHECK (status IN ('queued','processing','done','error'))\<close>
  of table \<^verbatim>\<open>jobs\<close>: one constructor per admitted text.
\<close>

datatype status = StQueued | StProcessing | StDone | StError

text \<open>A row of table \<^verbatim>\<open>jobs\<close> (struct \<^verbatim>\<open>Job\<close>). Timestamps are clock readings.\<close>

record job =
  ID :: string
  Filename :: string
  Status :: status
  Error :: "string option"
  SubmittedAt :: nat
  CompletedAt :: "nat option"

text \<open>
  A row of table \<^verbatim>\<open>qc_results\<close> (struct \<^verbatim>\<open>QC\<close> plus its key). The three
  \<^verbatim>\<open>DOUBLE PRECISION\<close> columns are modelled as exact reals: the quotient of two
  counters is the mathematical quotient, float64 rounding is not modelled.
\<close>

record qc_row =
  job_id :: string
  reads :: int
  avg_read_length :: real
  gc_content :: real
  n_content :: real
  processing_ms :: int

text \<open>
  The database: each table is the list of its rows, in insertion order. The primary keys
  are not built into the type; the statements below enforce them as PostgreSQL does.
\<close>

record database =
  jobs :: "job list"
  qc_results :: "qc_row list"

record QueueMessage =
  JobID :: string
  Path :: string
  Compression :: string

section \<open>qc-worker: the analyzer\<close>

subsection \<open>\<^verbatim>\<open>strings.TrimSpace\<close>\<close>

text \<open>
  A Go string is a byte sequence; \<^verbatim>\<open>strings.TrimSpace\<close> removes every leading and
  every trailing white-space rune (\<^verbatim>\<open>unicode.IsSpace\<close>) of its UTF-8 reading. The
  white-space runes are the six ASCII ones and U+0085, U+00A0, U+1680, U+2000..U+200A,
  U+2028, U+2029, U+202F, U+205F, U+3000, listed here by their UTF-8 encodings.
\<close>

definition asciiSpace :: "char \<Rightarrow> bool" where
  "asciiSpace c \<longleftrightarrow>
     c = CHR 0x09 \<or> c = CHR 0x0A \<or> c = CHR 0x0B \<or> c = CHR 0x0C \<or> c = CHR 0x0D \<or> c = CHR 0x20"

definition unicodeSpace2 :: "string list" where
  "unicodeSpace2 = [[CHR 0xC2, CHR 0x85], [CHR 0xC2, CHR 0xA0]]"

definition unicodeSpace3 :: "string list" where
  "unicodeSpace3 =
     [[CHR 0xE1, CHR 0x9A, CHR 0x80],
      [CHR 0xE2, CHR 0x80, CHR 0x80], [CHR 0xE2, CHR 0x80, CHR 0x81],
      [CHR 0xE2, CHR 0x80, CHR 0x82], [CHR 0xE2, CHR 0x80, CHR 0x83],
      [CHR 0xE2, CHR 0x80, CHR 0x84], [CHR 0xE2, CHR 0x80, CHR 0x85],
      [CHR 0xE2, CHR 0x80, CHR 0x86], [CHR 0xE2, CHR 0x80, CHR 0x87],
      [CHR 0xE2, CHR 0x80, CHR 0x88], [CHR 0xE2, CHR 0x80, CHR 0x89],
      [CHR 0xE2, CHR 0x80, CHR 0x8A],
      [CHR 0xE2, CHR 0x80, CHR 0xA8], [CHR 0xE2, CHR 0x80, CHR 0xA9],
      [CHR 0xE2, CHR 0x80, CHR 0xAF],
      [CHR 0xE2, CHR 0x81, CHR 0x9F],
      [CHR 0xE3, CHR 0x80, CHR 0x80]]"

text \<open>All white-space runes, each as its byte sequence.\<close>

definition spaceRunes :: "string list" where
  "spaceRunes =
     [[CHR 0x09], [CHR 0x0A], [CHR 0x0B], [CHR 0x0C], [CHR 0x0D], [CHR 0x20]]
     @ unicodeSpace2 @ unicodeSpace3"

text \<open>The number of bytes of the white-space rune at the head of \<open>s\<close>; 0 when there is none.\<close>

definition spaceAtHead :: "string \<Rightarrow> nat" where
  "spaceAtHead s =
     (case s of
        [] \<Rightarrow> 0
      | c # _ \<Rightarrow>
          if asciiSpace c then 1
          else if 2 \<le> length s \<and> take 2 s \<in> set unicodeSpace2 then 2
          else if 3 \<le> length s \<and> take 3 s \<in> set unicodeSpace3 then 3
          else 0)"

text \<open>The same at the end of \<open>s\<close> (\<^verbatim>\<open>utf8.DecodeLastRuneInString\<close>).\<close>

definition spaceAtEnd :: "string \<Rightarrow> nat" where
  "spaceAtEnd s =
     (let n = length s in
      if n = 0 then 0
      else if asciiSpace (last s) then 1
      else if 2 \<le> n \<and> drop (n - 2) s \<in> set unicodeSpace2 then 2
      else if 3 \<le> n \<and> drop (n - 3) s \<in> set unicodeSpace3 then 3
      else 0)"

lemma spaceAtHead_le: "spaceAtHead s \<le> length s"
  by (cases s) (simp_all add: spaceAtHead_def)

lemma spaceAtEnd_le: "spaceAtEnd s \<le> length s"
  by (cases s) (auto simp add: spaceAtEnd_def Let_def)

function TrimLeft :: "string \<Rightarrow> string" where
  "TrimLeft s = (if spaceAtHead s = 0 then s else TrimLeft (drop (spaceAtHead s) s))"
  by pat_completeness auto
termination
proof (relation "measure length")
  show "wf (measure length)" by simp
next
  fix s :: string
  assume "spaceAtHead s \<noteq> 0"
  moreover have "spaceAtHead s \<le> length s" by (rule spaceAtHead_le)
  ultimately show "(drop (spaceAtHead s) s, s) \<in> measure length" by simp
qed

function TrimRight :: "string \<Rightarrow> string" where
  "TrimRight s =
     (if spaceAtEnd s = 0 then s else TrimRight (take (length s - spaceAtEnd s) s))"
  by pat_completeness auto
termination
proof (relation "measure length")
  show "wf (measure length)" by simp
next
  fix s :: string
  assume "spaceAtEnd s \<noteq> 0"
  moreover have "spaceAtEnd s \<le> length s" by (rule spaceAtEnd_le)
  ultimately show "(take (length s - spaceAtEnd s) s, s) \<in> measure length" by simp
qed

declare TrimLeft.simps [simp del] TrimRight.simps [simp del]

definition TrimSpace :: "string \<Rightarrow> string" where
  "TrimSpace s = TrimRight (TrimLeft s)"

subsection \<open>The scan loop of \<^verbatim>\<open>processFASTQ\<close>\<close>

text \<open>
  The loop's variables. The counters are \<^verbatim>\<open>int64\<close> (\<^verbatim>\<open>lineIdx\<close> is \<^verbatim>\<open>int\<close>);
  each is bounded by the number of bytes read from one file, which a signed 64-bit file
  offset bounds below \<open>2^63\<close>, so they are modelled as unbounded integers.
\<close>

record counters =
  lineIdx :: int
  totalReads :: int
  totalBases :: int
  gcCount :: int
  nCount :: int

definition counters0 :: counters where
  "counters0 = \<lparr>lineIdx = 0, totalReads = 0, totalBases = 0, gcCount = 0, nCount = 0\<rparr>"

text \<open>The \<^verbatim>\<open>switch seq[i]\<close> of the inner loop, for one byte.\<close>

definition countBase :: "counters \<Rightarrow> char \<Rightarrow> counters" where
  "countBase s c =
     (if c = CHR ''G'' \<or> c = CHR ''g'' \<or> c = CHR ''C'' \<or> c = CHR ''c''
        then s\<lparr>gcCount := gcCount s + 1\<rparr>
      else if c = CHR ''N'' \<or> c = CHR ''n''
        then s\<lparr>nCount := nCount s + 1\<rparr>
      else s)"

text \<open>One iteration of \<^verbatim>\<open>for sc.Scan()\<close>, on the line \<^verbatim>\<open>sc.Text()\<close>.\<close>

definition scanLine :: "counters \<Rightarrow> string \<Rightarrow> counters" where
  "scanLine s line =
     (let s' =
        (if lineIdx s mod 4 = 1 then
           (let seq = TrimSpace line;
                l = int (length seq)
            in foldl countBase
                 (s\<lparr>totalReads := totalReads s + 1, totalBases := totalBases s + l\<rparr>) seq)
         else s)
      in s'\<lparr>lineIdx := lineIdx s' + 1\<rparr>)"

definition scanAll :: "string list \<Rightarrow> counters" where
  "scanAll lines = foldl scanLine counters0 lines"

text \<open>The three quotients computed after the loop.\<close>

definition avgLen :: "counters \<Rightarrow> real" where
  "avgLen s = (if totalReads s > 0 then real_of_int (totalBases s) / real_of_int (totalReads s) else 0)"

definition gcFrac :: "counters \<Rightarrow> real" where
  "gcFrac s = (if totalBases s > 0 then real_of_int (gcCount s) / real_of_int (totalBases s) else 0)"

definition nFrac :: "counters \<Rightarrow> real" where
  "nFrac s = (if totalBases s > 0 then real_of_int (nCount s) / real_of_int (totalBases s) else 0)"


definition isGC :: "char \<Rightarrow> bool" where
  "isGC c \<longleftrightarrow> c \<in> {CHR ''G'', CHR ''g'', CHR ''C'', CHR ''c''}"

definition isN :: "char \<Rightarrow> bool" where
  "isN c \<longleftrightarrow> c \<in> {CHR ''N'', CHR ''n''}"




text \<open>
  Stripping as the specification words it: trailing white space is removed and nothing
  else.
\<close>

definition strip_trailing_only :: "string \<Rightarrow> string" where
  "strip_trailing_only s = TrimRight s"

section \<open>Statements on the database\<close>

text \<open>
  Every \<^verbatim>\<open>db.Exec\<close> and \<^verbatim>\<open>db.QueryRow\<close> can fail for a reason outside the tables
  (connection lost, a job id that is not a UUID): \<open>fault\<close> is that failure, if any. A
  failed statement leaves the database as it was. Ids are compared as the texts the
  program passes, which are the canonical texts \<^verbatim>\<open>uuid.New().String()\<close> produced.
\<close>

text \<open>\<^verbatim>\<open>UPDATE jobs SET status=$2, error=$3 WHERE id=$1\<close>\<close>

definition setStatus ::
  "err option \<Rightarrow> database \<Rightarrow> string \<Rightarrow> status \<Rightarrow> string option \<Rightarrow> err option \<times> database" where
  "setStatus fault d jobID st errMsg =
     (case fault of
        Some e \<Rightarrow> (Some e, d)
      | None \<Rightarrow>
          (None, d\<lparr>jobs :=
             map (\<lambda>j. if ID j = jobID then j\<lparr>Status := st, Error := errMsg\<rparr> else j) (jobs d)\<rparr>))"

text \<open>\<^verbatim>\<open>UPDATE jobs SET status='done', completed_at=now() WHERE id=$1\<close>\<close>

definition setDone :: "err option \<Rightarrow> nat \<Rightarrow> database \<Rightarrow> string \<Rightarrow> err option \<times> database" where
  "setDone fault now d jobID =
     (case fault of
        Some e \<Rightarrow> (Some e, d)
      | None \<Rightarrow>
          (None, d\<lparr>jobs :=
             map (\<lambda>j. if ID j = jobID then j\<lparr>Status := StDone, CompletedAt := Some now\<rparr> else j)
               (jobs d)\<rparr>))"

text \<open>
  \<^verbatim>\<open>INSERT INTO qc_results (...) VALUES (...) ON CONFLICT (job_id) DO UPDATE SET ...\<close>:
  a row with the same key has its five other columns replaced; otherwise the row is
  appended, which the foreign key \<^verbatim>\<open>REFERENCES jobs(id)\<close> refuses when no job has that
  id.
\<close>

definition upsertQC :: "err option \<Rightarrow> database \<Rightarrow> qc_row \<Rightarrow> err option \<times> database" where
  "upsertQC fault d r =
     (case fault of
        Some e \<Rightarrow> (Some e, d)
      | None \<Rightarrow>
          if job_id r \<in> set (map job_id (qc_results d)) then
            (None, d\<lparr>qc_results :=
               map (\<lambda>x. if job_id x = job_id r
                         then x\<lparr>reads := reads r, avg_read_length := avg_read_length r,
                                gc_content := gc_content r, n_content := n_content r,
                                processing_ms := processing_ms r\<rparr>
                         else x) (qc_results d)\<rparr>)
          else if job_id r \<notin> set (map ID (jobs d)) then
            (Some (Err ''insert on qc_results violates foreign key constraint''), d)
          else (None, d\<lparr>qc_results := qc_results d @ [r]\<rparr>))"

text \<open>
  \<^verbatim>\<open>INSERT INTO jobs (id, filename, status) VALUES ($1,$2,'queued')\<close>: refused by the
  primary key when the id is taken; \<^verbatim>\<open>error\<close> and \<^verbatim>\<open>completed_at\<close> get no value,
  \<^verbatim>\<open>submitted_at\<close> its default \<^verbatim>\<open>now()\<close>.
\<close>

definition insertJob ::
  "err option \<Rightarrow> nat \<Rightarrow> database \<Rightarrow> string \<Rightarrow> string \<Rightarrow> err option \<times> database" where
  "insertJob fault now d jobID filename =
     (case fault of
        Some e \<Rightarrow> (Some e, d)
      | None \<Rightarrow>
          if jobID \<in> set (map ID (jobs d)) then
            (Some (Err ''duplicate key value violates unique constraint''), d)
          else
            (None, d\<lparr>jobs := jobs d @
               [\<lparr>ID = jobID, Filename = filename, Status = StQueued, Error = None,
                 SubmittedAt = now, CompletedAt = None\<rparr>]\<rparr>))"

section \<open>qc-worker: \<^verbatim>\<open>processFASTQ\<close> and the consume loop\<close>

text \<open>
  What one delivery meets outside the program: the file system and scanner
  (\<open>openFile path\<close> is the error of \<^verbatim>\<open>os.Open\<close>, or the lines the scanner yields
  together with \<^verbatim>\<open>sc.Err()\<close>: a read error or a line over the 1 MiB buffer ends the
  lines early with an error), the fault of each of the four statements, the two measured
  durations and the clock at \<^verbatim>\<open>setDone\<close>.
\<close>

record worker_env =
  openFile :: "string \<Rightarrow> err + (string list \<times> err option)"
  failProcessing :: "err option"
  failUpsert :: "err option"
  failError :: "err option"
  failDone :: "err option"
  analysisMs :: int
  elapsedMs :: int
  doneAt :: nat

definition processFASTQ ::
  "worker_env \<Rightarrow> database \<Rightarrow> string \<Rightarrow> string \<Rightarrow> err option \<times> database" where
  "processFASTQ env d jobID path =
     (case openFile env path of
        Inl e \<Rightarrow> (Some e, d)
      | Inr (lines, scanErr) \<Rightarrow>
          (let s = scanAll lines in
           case scanErr of
             Some e \<Rightarrow> (Some e, d)
           | None \<Rightarrow>
               upsertQC (failUpsert env) d
                 \<lparr>job_id = jobID, reads = totalReads s, avg_read_length = avgLen s,
                  gc_content = gcFrac s, n_content = nFrac s,
                  processing_ms = analysisMs env\<rparr>))"

text \<open>
  The effects of the loop body that the outside can see, in the order of the calls. Log
  lines are left out.
\<close>

datatype effect =
    Nack bool bool
  | Ack bool
  | CallSetStatus string status "string option"
  | CallProcessFASTQ string string
  | CallSetDone string
  | Inc_jobFailures
  | Inc_jobsProcessed
  | Observe_jobDuration int

text \<open>
  The body of \<^verbatim>\<open>for d := range msgs\<close> for one delivery, given the result of
  \<^verbatim>\<open>json.Unmarshal(d.Body, &msg)\<close>. It returns every effect with the database as it is
  right after the effect: the observable points of the delivery, in order.
\<close>

definition handleDelivery ::
  "worker_env \<Rightarrow> database \<Rightarrow> err + QueueMessage \<Rightarrow> (effect \<times> database) list" where
  "handleDelivery env d0 body =
     (case body of
        Inl e \<Rightarrow> [(Nack False False, d0), (Inc_jobFailures, d0)]
      | Inr msg \<Rightarrow>
          (let d1 = snd (setStatus (failProcessing env) d0 (JobID msg) StProcessing None);
               (perr, d2) = processFASTQ env d1 (JobID msg) (Path msg)
           in [(CallSetStatus (JobID msg) StProcessing None, d1),
               (CallProcessFASTQ (JobID msg) (Path msg), d2)] @
              (case perr of
                 Some e \<Rightarrow>
                   (let d3 = snd (setStatus (failError env) d2 (JobID msg) StError
                                   (Some (Error_text e)))
                    in [(Nack False False, d2),
                        (CallSetStatus (JobID msg) StError (Some (Error_text e)), d3),
                        (Inc_jobFailures, d3)])
               | None \<Rightarrow>
                   (let d4 = snd (setDone (failDone env) (doneAt env) d2 (JobID msg))
                    in [(Ack False, d2),
                        (Inc_jobsProcessed, d2),
                        (Observe_jobDuration (elapsedMs env), d2),
                        (CallSetDone (JobID msg), d4)]))))"

definition finalDB :: "worker_env \<Rightarrow> database \<Rightarrow> err + QueueMessage \<Rightarrow> database" where
  "finalDB env d0 body = snd (last (handleDelivery env d0 body))"

text \<open>The loop over the deliveries, each with what it meets.\<close>

fun consume ::
  "database \<Rightarrow> (worker_env \<times> (err + QueueMessage)) list \<Rightarrow> (effect \<times> database) list" where
  "consume d [] = []"
| "consume d ((env, body) # rest) =
     handleDelivery env d body @ consume (finalDB env d body) rest"

text \<open>
  The ordering the specification words for a successful work item: no acknowledgment
  comes before the call that writes Done.
\<close>

definition acked_only_after_done :: "effect list \<Rightarrow> bool" where
  "acked_only_after_done es \<longleftrightarrow>
     list_ex (\<lambda>e. case e of CallSetDone _ \<Rightarrow> True | _ \<Rightarrow> False)
       (takeWhile (\<lambda>e. case e of Ack _ \<Rightarrow> False | _ \<Rightarrow> True) es)
     \<or> \<not> list_ex (\<lambda>e. case e of Ack _ \<Rightarrow> True | _ \<Rightarrow> False) es"

section \<open>ingress-api: \<^verbatim>\<open>handleSubmit\<close>\<close>

datatype 'a response = HttpError string nat | HttpOK 'a

text \<open>
  \<^verbatim>\<open>filepath.Base\<close> on a slash-separated path: trailing slashes are dropped, the last
  element is kept; the empty path gives a dot and a path of slashes gives one slash.
\<close>

definition Base :: "string \<Rightarrow> string" where
  "Base path =
     (if path = [] then ''.''
      else
        (let p = rev (dropWhile (\<lambda>c. c = CHR ''/'') (rev path));
             e = rev (takeWhile (\<lambda>c. c \<noteq> CHR ''/'') (rev p))
         in if e = [] then ''/'' else e))"

text \<open>
  \<^verbatim>\<open>filepath.Join\<close> of a directory and one element. The lexical cleaning of the result
  is not modelled: the path is only ever used as the key of the stored file.
\<close>

definition Join :: "string \<Rightarrow> string \<Rightarrow> string" where
  "Join dir elem = dir @ ''/'' @ elem"

text \<open>
  What the handler can change: the files under the upload directory (path to content),
  the database, and the messages published on queue \<^verbatim>\<open>qc.jobs\<close>, oldest first.
\<close>

record ingress_state =
  files :: "string \<rightharpoonup> string"
  idb :: database
  published :: "QueueMessage list"

text \<open>
  What one request meets: the outcome of \<^verbatim>\<open>ParseMultipartForm\<close>, of \<^verbatim>\<open>FormFile\<close>
  (the header's file name and the uploaded bytes), of \<^verbatim>\<open>MkdirAll\<close>, of \<^verbatim>\<open>os.Create\<close>,
  of \<^verbatim>\<open>out.ReadFrom\<close> (on failure, how many bytes were written before it), of the
  insert and of the publish; the fresh UUID, the upload directory and the clock.
\<close>

record submit_env =
  parseForm :: "err option"
  formFile :: "err + (string \<times> string)"
  mkdirAll :: "err option"
  createFile :: "err option"
  readFrom :: "(nat \<times> err) option"
  failInsert :: "err option"
  failPublish :: "err option"
  newUUID :: string
  uploadDir :: string
  submitTime :: nat

definition handleSubmit ::
  "submit_env \<Rightarrow> ingress_state \<Rightarrow> string response \<times> ingress_state" where
  "handleSubmit env st =
     (case parseForm env of
        Some _ \<Rightarrow> (HttpError ''invalid form'' 400, st)
      | None \<Rightarrow>
     (case formFile env of
        Inl _ \<Rightarrow> (HttpError ''file field is required'' 400, st)
      | Inr (headerFilename, content) \<Rightarrow>
     (case mkdirAll env of
        Some _ \<Rightarrow> (HttpError ''server storage error'' 500, st)
      | None \<Rightarrow>
     (let filename = Base headerFilename;
          jobID = newUUID env;
          dstPath = Join (uploadDir env) (jobID @ ''_'' @ filename)
      in
     (case createFile env of
        Some _ \<Rightarrow> (HttpError ''failed to save file'' 500, st)
      | None \<Rightarrow>
     (case readFrom env of
        Some (n, _) \<Rightarrow>
          (HttpError ''failed to write file'' 500,
           st\<lparr>files := (files st)(dstPath \<mapsto> take n content)\<rparr>)
      | None \<Rightarrow>
     (let st1 = st\<lparr>files := (files st)(dstPath \<mapsto> content)\<rparr> in
     (case insertJob (failInsert env) (submitTime env) (idb st1) jobID filename of
        (Some _, _) \<Rightarrow> (HttpError ''db error'' 500, st1)
      | (None, d') \<Rightarrow>
     (let st2 = st1\<lparr>idb := d'\<rparr>;
          msg = \<lparr>JobID = jobID, Path = dstPath, Compression = ''none''\<rparr>
      in
     (case failPublish env of
        Some _ \<Rightarrow> (HttpError ''queue error'' 500, st2)
      | None \<Rightarrow> (HttpOK jobID, st2\<lparr>published := published st2 @ [msg]\<rparr>)))))))))))"

section \<open>results-api: \<^verbatim>\<open>handleGetJob\<close>\<close>

text \<open>
  Two \<^verbatim>\<open>QueryRow(...).Scan\<close>: the first answers 404 when it fails or finds no job; the
  second leaves \<^verbatim>\<open>qc\<close> nil when it fails or finds no row. The status of the job is
  not consulted.
\<close>

definition handleGetJob ::
  "err option \<Rightarrow> err option \<Rightarrow> database \<Rightarrow> string \<Rightarrow> (job \<times> qc_row option) response" where
  "handleGetJob failJob failQC d i =
     (case (if failJob = None then find (\<lambda>j. ID j = i) (jobs d) else None) of
        None \<Rightarrow> HttpError ''job not found'' 404
      | Some j \<Rightarrow>
          HttpOK (j, if failQC = None then find (\<lambda>r. job_id r = i) (qc_results d) else None))"

section \<open>Invariants of the stored state\<close>

text \<open>A Done job has a completion time and a Queued job has none.\<close>

definition completed_inv :: "database \<Rightarrow> bool" where
  "completed_inv d \<longleftrightarrow>
     (\<forall>j\<in>set (jobs d). (Status j = StDone \<longrightarrow> CompletedAt j \<noteq> None) \<and>
                        (Status j = StQueued \<longrightarrow> CompletedAt j = None))"

text \<open>Every Done job has a row in \<^verbatim>\<open>qc_results\<close>.\<close>

definition done_has_result :: "database \<Rightarrow> bool" where
  "done_has_result d \<longleftrightarrow>
     (\<forall>j\<in>set (jobs d). Status j = StDone \<longrightarrow> ID j \<in> set (map job_id (qc_results d)))"

section \<open>A sample run\<close>

text \<open>
  Two complete records with the content lines \<^verbatim>\<open>ACGTACGTAC\<close> and \<^verbatim>\<open>NNNNACGTAC\<close>,
  stored for job \<^verbatim>\<open>j1\<close>; used to evaluate the definitions on concrete inputs.
\<close>

definition example_lines :: "string list" where
  "example_lines =
     [''@r1'', ''ACGTACGTAC'', ''+'', ''IIIIIIIIII'',
      ''@r2'', ''NNNNACGTAC'', ''+'', ''IIIIIIIIII'']"

definition example_path :: string where
  "example_path = ''/data/uploads/j1_tiny.fastq''"

definition example_job :: job where
  "example_job =
     \<lparr>ID = ''j1'', Filename = ''tiny.fastq'', Status = StQueued, Error = None,
      SubmittedAt = 100, CompletedAt = None\<rparr>"

definition example_db :: database where
  "example_db = \<lparr>jobs = [example_job], qc_results = []\<rparr>"

definition example_msg :: QueueMessage where
  "example_msg = \<lparr>JobID = ''j1'', Path = example_path, Compression = ''none''\<rparr>"

definition example_env :: worker_env where
  "example_env =
     \<lparr>openFile = (\<lambda>p. if p = example_path then Inr (example_lines, None)
                        else Inl (Err ''open: no such file or directory'')),
      failProcessing = None, failUpsert = None, failError = None, failDone = None,
      analysisMs = 22, elapsedMs = 25, doneAt = 101\<rparr>"

definition example_row1 :: qc_row where
  "example_row1 =
     \<lparr>job_id = ''j1'', reads = 2, avg_read_length = 10, gc_content = 2 / 5,
      n_content = 1 / 5, processing_ms = 22\<rparr>"

definition example_row2 :: qc_row where
  "example_row2 =
     \<lparr>job_id = ''j1'', reads = 3, avg_read_length = 8, gc_content = 1 / 2,
      n_content = 0, processing_ms = 17\<rparr>"

text \<open>A work item whose file is gone, and the job after a successful and after a failed run.\<close>

definition missing_msg :: QueueMessage where
  "missing_msg = \<lparr>JobID = ''j1'', Path = ''/data/uploads/j1_gone.fastq'', Compression = ''none''\<rparr>"

definition example_done_db :: database where
  "example_done_db =
     \<lparr>jobs = [\<lparr>ID = ''j1'', Filename = ''tiny.fastq'', Status = StDone, Error = None,
               SubmittedAt = 100, CompletedAt = Some 101\<rparr>],
      qc_results = [example_row1]\<rparr>"

definition example_failed_db :: database where
  "example_failed_db =
     \<lparr>jobs = [\<lparr>ID = ''j1'', Filename = ''tiny.fastq'', Status = StError,
               Error = Some ''open: no such file or directory'',
               SubmittedAt = 100, CompletedAt = None\<rparr>],
      qc_results = []\<rparr>"



section \<open>Properties of the analyzer\<close>

lemma countBase_alt:
  "countBase s c =
     s\<lparr>gcCount := gcCount s + (if isGC c then 1 else 0),
       nCount := nCount s + (if isN c then 1 else 0)\<rparr>"
  by (auto simp add: countBase_def isGC_def isN_def)

lemma foldl_countBase:
  "foldl countBase s seq =
     s\<lparr>gcCount := gcCount s + int (length (filter isGC seq)),
       nCount := nCount s + int (length (filter isN seq))\<rparr>"
proof (induction seq arbitrary: s)
  case Nil
  show ?case by simp
next
  case (Cons c cs)
  show ?case
    unfolding foldl_Cons Cons.IH
    by (simp add: countBase_alt)
qed

lemma scanLine_content:
  "lineIdx s mod 4 = 1 \<Longrightarrow>
   scanLine s line =
     s\<lparr>lineIdx := lineIdx s + 1,
       totalReads := totalReads s + 1,
       totalBases := totalBases s + int (length (TrimSpace line)),
       gcCount := gcCount s + int (length (filter isGC (TrimSpace line))),
       nCount := nCount s + int (length (filter isN (TrimSpace line)))\<rparr>"
  by (simp add: scanLine_def Let_def foldl_countBase)






lemma replace_columns:
  "job_id x = job_id r \<Longrightarrow>
   x\<lparr>reads := reads r, avg_read_length := avg_read_length r,
     gc_content := gc_content r, n_content := n_content r,
     processing_ms := processing_ms r\<rparr> = (r :: qc_row)"
  by (cases x, cases r) simp

lemma upsertQC_stored:
  assumes "upsertQC None d r = (None, d')"
  shows "(\<exists>x\<in>set (qc_results d'). job_id x = job_id r) \<and>
         (\<forall>x\<in>set (qc_results d'). job_id x = job_id r \<longrightarrow> x = r)"
proof (cases "job_id r \<in> set (map job_id (qc_results d))")
  case True
  with assms have d': "d' = d\<lparr>qc_results :=
      map (\<lambda>x. if job_id x = job_id r
                then x\<lparr>reads := reads r, avg_read_length := avg_read_length r,
                       gc_content := gc_content r, n_content := n_content r,
                       processing_ms := processing_ms r\<rparr>
                else x) (qc_results d)\<rparr>"
    by (simp add: upsertQC_def)
  from True obtain y where y: "y \<in> set (qc_results d)" "job_id y = job_id r" by auto
  have "qc_results d' = map (\<lambda>x. if job_id x = job_id r then r else x) (qc_results d)"
    unfolding d' by (simp add: replace_columns cong: if_cong)
  then have "set (qc_results d') = (\<lambda>x. if job_id x = job_id r then r else x) ` set (qc_results d)"
    by simp
  then have all: "\<forall>x\<in>set (qc_results d'). job_id x = job_id r \<longrightarrow> x = r"
    and ex: "r \<in> set (qc_results d')"
    using y by (auto simp add: image_iff)
  from ex all show ?thesis by blast
next
  case False
  with assms have d': "d' = d\<lparr>qc_results := qc_results d @ [r]\<rparr>"
    by (simp add: upsertQC_def split: if_splits)
  show ?thesis
    unfolding d' using False by (auto simp add: image_iff)
qed




subsection \<open>What \<^verbatim>\<open>strings.TrimSpace\<close> removes\<close>

lemma head_rune:
  "spaceAtHead s \<noteq> 0 \<Longrightarrow> take (spaceAtHead s) s \<in> set spaceRunes"
  by (cases s) (auto simp add: spaceAtHead_def spaceRunes_def asciiSpace_def split: if_splits)

lemma end_rune:
  assumes "spaceAtEnd s \<noteq> 0"
  shows "drop (length s - spaceAtEnd s) s \<in> set spaceRunes"
proof (cases s rule: rev_cases)
  case Nil
  with assms show ?thesis by (simp add: spaceAtEnd_def)
next
  case (snoc ys y)
  with assms show ?thesis
    by (auto simp add: spaceAtEnd_def spaceRunes_def asciiSpace_def Let_def split: if_splits)
qed

lemma TrimLeft_prefix:
  "\<exists>ps. set ps \<subseteq> set spaceRunes \<and> s = concat ps @ TrimLeft s"
proof (induction s rule: TrimLeft.induct)
  case (1 s)
  show ?case
  proof (cases "spaceAtHead s = 0")
    case True
    then have "TrimLeft s = s" by (subst TrimLeft.simps) simp
    then have "set [] \<subseteq> set spaceRunes \<and> s = concat [] @ TrimLeft s" by simp
    then show ?thesis by blast
  next
    case False
    from "1.IH"[OF False] obtain ps where
      ps: "set ps \<subseteq> set spaceRunes"
        "drop (spaceAtHead s) s = concat ps @ TrimLeft (drop (spaceAtHead s) s)"
      by blast
    have t: "TrimLeft s = TrimLeft (drop (spaceAtHead s) s)"
      using False by (subst TrimLeft.simps) simp
    have "s = take (spaceAtHead s) s @ drop (spaceAtHead s) s" by simp
    also have "\<dots> = concat (take (spaceAtHead s) s # ps) @ TrimLeft s"
      unfolding t using ps(2) by simp
    finally have "s = concat (take (spaceAtHead s) s # ps) @ TrimLeft s" .
    moreover have "set (take (spaceAtHead s) s # ps) \<subseteq> set spaceRunes"
      using ps(1) head_rune[OF False] by simp
    ultimately show ?thesis by blast
  qed
qed

lemma TrimRight_suffix:
  "\<exists>ss. set ss \<subseteq> set spaceRunes \<and> s = TrimRight s @ concat ss"
proof (induction s rule: TrimRight.induct)
  case (1 s)
  show ?case
  proof (cases "spaceAtEnd s = 0")
    case True
    then have "TrimRight s = s" by (subst TrimRight.simps) simp
    then have "set [] \<subseteq> set spaceRunes \<and> s = TrimRight s @ concat []" by simp
    then show ?thesis by blast
  next
    case False
    let ?k = "length s - spaceAtEnd s"
    from "1.IH"[OF False] obtain ss where
      ss: "set ss \<subseteq> set spaceRunes" "take ?k s = TrimRight (take ?k s) @ concat ss"
      by blast
    have t: "TrimRight s = TrimRight (take ?k s)"
      using False by (subst TrimRight.simps) simp
    have "s = take ?k s @ drop ?k s" by simp
    also have "\<dots> = (TrimRight (take ?k s) @ concat ss) @ drop ?k s"
      using ss(2) by (rule arg_cong)
    also have "\<dots> = TrimRight s @ concat (ss @ [drop ?k s])"
      unfolding t by simp
    finally have "s = TrimRight s @ concat (ss @ [drop ?k s])" .
    moreover have "set (ss @ [drop ?k s]) \<subseteq> set spaceRunes"
      using ss(1) end_rune[OF False] by simp
    ultimately show ?thesis by blast
  qed
qed

lemma TrimLeft_head: "spaceAtHead (TrimLeft s) = 0"
proof (induction s rule: TrimLeft.induct)
  case (1 s)
  show ?case
  proof (cases "spaceAtHead s = 0")
    case True
    then show ?thesis by (subst TrimLeft.simps) simp
  next
    case False
    with "1.IH" show ?thesis by (subst TrimLeft.simps) simp
  qed
qed

lemma TrimRight_end: "spaceAtEnd (TrimRight s) = 0"
proof (induction s rule: TrimRight.induct)
  case (1 s)
  show ?case
  proof (cases "spaceAtEnd s = 0")
    case True
    then show ?thesis by (subst TrimRight.simps) simp
  next
    case False
    with "1.IH" show ?thesis by (subst TrimRight.simps) simp
  qed
qed

lemma head_of_take:
  "spaceAtHead s = 0 \<Longrightarrow> spaceAtHead (take n s) = 0"
  by (cases s; cases n)
     (auto simp add: spaceAtHead_def min_def take_Suc_Cons split: if_splits list.splits)

lemma TrimRight_head: "spaceAtHead s = 0 \<Longrightarrow> spaceAtHead (TrimRight s) = 0"
proof (induction s rule: TrimRight.induct)
  case (1 s)
  show ?case
  proof (cases "spaceAtEnd s = 0")
    case True
    then show ?thesis using "1.prems" by (subst TrimRight.simps) simp
  next
    case False
    have "spaceAtHead (take (length s - spaceAtEnd s) s) = 0"
      using "1.prems" by (rule head_of_take)
    from "1.IH"[OF False this] False show ?thesis
      by (subst TrimRight.simps) simp
  qed
qed

text \<open>
  Claim C9, amended. For every content line (a line met when \<open>lineIdx mod 4 = 1\<close>) the
  analyzer strips leading as well as trailing white space (\<^verbatim>\<open>strings.TrimSpace\<close>) and
  nothing else: the line is a run of white-space runes, then the stripped line, then a run
  of white-space runes, and the stripped line neither starts nor ends with a white-space
  rune. It counts one record, adds the stripped line's length in bytes to the total
  content length, and classifies each remaining byte: G, g, C, c into the GC count, N, n
  into the N count, every other byte into neither.
\<close>

theorem scanLine_content_line:
  assumes "lineIdx s mod 4 = 1"
  shows "scanLine s line =
      s\<lparr>lineIdx := lineIdx s + 1,
        totalReads := totalReads s + 1,
        totalBases := totalBases s + int (length (TrimSpace line)),
        gcCount := gcCount s + int (length (filter isGC (TrimSpace line))),
        nCount := nCount s + int (length (filter isN (TrimSpace line)))\<rparr> \<and>
    (\<exists>ps ss. set ps \<subseteq> set spaceRunes \<and> set ss \<subseteq> set spaceRunes \<and>
       line = concat ps @ TrimSpace line @ concat ss) \<and>
    spaceAtHead (TrimSpace line) = 0 \<and> spaceAtEnd (TrimSpace line) = 0"
proof -
  obtain ps where ps: "set ps \<subseteq> set spaceRunes" "line = concat ps @ TrimLeft line"
    using TrimLeft_prefix by blast
  obtain ss where ss: "set ss \<subseteq> set spaceRunes"
      "TrimLeft line = TrimRight (TrimLeft line) @ concat ss"
    using TrimRight_suffix by blast
  have "line = concat ps @ (TrimRight (TrimLeft line) @ concat ss)"
    using ps(2) ss(2) by metis
  then have "line = concat ps @ TrimSpace line @ concat ss"
    by (simp add: TrimSpace_def)
  with ps(1) ss(1) have parts: "\<exists>ps ss. set ps \<subseteq> set spaceRunes \<and> set ss \<subseteq> set spaceRunes \<and>
       line = concat ps @ TrimSpace line @ concat ss"
    by blast
  have ends: "spaceAtHead (TrimSpace line) = 0" "spaceAtEnd (TrimSpace line) = 0"
    by (simp_all add: TrimSpace_def TrimRight_head TrimLeft_head TrimRight_end)
  from scanLine_content[OF assms] parts ends show ?thesis
    by blast
qed

theorem scanLine_content_line_witness:
  "lineIdx (counters0\<lparr>lineIdx := 1\<rparr>) mod 4 = 1 \<and>
   scanLine (counters0\<lparr>lineIdx := 1\<rparr>) [CHR 0x20, CHR 0x09, CHR ''a'', CHR ''c'', CHR ''G'', CHR ''t'', CHR ''N'', CHR 0x20] =
     \<lparr>lineIdx = 2, totalReads = 1, totalBases = 5, gcCount = 2, nCount = 1\<rparr>"
proof -
  have h: "lineIdx (counters0\<lparr>lineIdx := 1\<rparr>) mod 4 = 1"
    by (simp add: counters0_def)
  have t: "TrimSpace [CHR 0x20, CHR 0x09, CHR ''a'', CHR ''c'', CHR ''G'', CHR ''t'', CHR ''N'', CHR 0x20] = ''acGtN''"
    by code_simp
  from scanLine_content_line[OF h, of "[CHR 0x20, CHR 0x09, CHR ''a'', CHR ''c'', CHR ''G'', CHR ''t'', CHR ''N'', CHR 0x20]"]
  show ?thesis
    unfolding t by (simp add: counters0_def isGC_def isN_def)
qed

text \<open>
  The claim as worded fails on a content line with leading white space: of the five bytes
  that stripping the trailing white space alone leaves, the analyzer counts four.
\<close>

theorem strip_trailing_only_counterexample:
  "totalBases (scanAll [''@r1'', '' ACGT'', ''+'', ''IIII'']) = 4 \<and>
   int (length (strip_trailing_only '' ACGT'')) = 5"
  by code_simp

section \<open>Properties of the statements\<close>

lemma setStatus_qc [simp]: "qc_results (snd (setStatus f d i st e)) = qc_results d"
  by (simp add: setStatus_def split: option.splits)

lemma setDone_qc [simp]: "qc_results (snd (setDone f now d i)) = qc_results d"
  by (simp add: setDone_def split: option.splits)

lemma setStatus_jobs:
  "jobs (snd (setStatus f d i st e)) =
     (if f = None
      then map (\<lambda>j. if ID j = i then j\<lparr>Status := st, Error := e\<rparr> else j) (jobs d)
      else jobs d)"
  by (simp add: setStatus_def split: option.splits)

lemma setDone_jobs:
  "jobs (snd (setDone f now d i)) =
     (if f = None
      then map (\<lambda>j. if ID j = i then j\<lparr>Status := StDone, CompletedAt := Some now\<rparr> else j) (jobs d)
      else jobs d)"
  by (simp add: setDone_def split: option.splits)

lemma setStatus_ids [simp]: "map ID (jobs (snd (setStatus f d i st e))) = map ID (jobs d)"
  by (simp add: setStatus_jobs comp_def cong: map_cong)

lemma setDone_ids [simp]: "map ID (jobs (snd (setDone f now d i))) = map ID (jobs d)"
  by (simp add: setDone_jobs comp_def cong: map_cong)

lemma setStatus_completed:
  "map CompletedAt (jobs (snd (setStatus f d i st e))) = map CompletedAt (jobs d)"
  by (simp add: setStatus_jobs comp_def cong: map_cong)

lemma upsertQC_jobs [simp]: "jobs (snd (upsertQC f d r)) = jobs d"
  by (simp add: upsertQC_def split: option.splits)

lemma upsertQC_fault: "fst (upsertQC f d r) = None \<Longrightarrow> f = None"
  by (simp add: upsertQC_def split: option.splits)

lemma upsertQC_failed: "fst (upsertQC f d r) \<noteq> None \<Longrightarrow> snd (upsertQC f d r) = d"
  by (simp add: upsertQC_def split: option.splits if_splits)

lemma replace_keys:
  "map job_id (map (\<lambda>x. if job_id x = job_id r then r else x) xs) = map job_id xs"
  by (induction xs) auto

lemma replace_absent:
  "job_id r \<notin> set (map job_id xs) \<Longrightarrow>
   map (\<lambda>x. if job_id x = job_id r then r else x) xs = xs"
  by (induction xs) auto

lemma replace_twice:
  "job_id v1 = job_id v2 \<Longrightarrow>
   map (\<lambda>x. if job_id x = job_id v2 then v2 else x)
     (map (\<lambda>x. if job_id x = job_id v1 then v1 else x) xs) =
   map (\<lambda>x. if job_id x = job_id v2 then v2 else x) xs"
  by (induction xs) auto

lemma upsertQC_None:
  "upsertQC None d r =
     (if job_id r \<in> set (map job_id (qc_results d))
        then (None, d\<lparr>qc_results :=
                map (\<lambda>x. if job_id x = job_id r then r else x) (qc_results d)\<rparr>)
      else if job_id r \<notin> set (map ID (jobs d))
        then (Some (Err ''insert on qc_results violates foreign key constraint''), d)
      else (None, d\<lparr>qc_results := qc_results d @ [r]\<rparr>))"
  by (simp add: upsertQC_def replace_columns cong: if_cong)

lemma upsertQC_rows:
  "fst (upsertQC f d r) = None \<Longrightarrow>
   qc_results (snd (upsertQC f d r)) =
     (if job_id r \<in> set (map job_id (qc_results d))
      then map (\<lambda>x. if job_id x = job_id r then r else x) (qc_results d)
      else qc_results d @ [r])"
  by (simp add: upsertQC_def replace_columns split: option.splits if_splits cong: if_cong)

lemma upsertQC_key_list:
  assumes "fst (upsertQC f d r) = None"
  shows "map job_id (qc_results (snd (upsertQC f d r))) =
     (if job_id r \<in> set (map job_id (qc_results d))
      then map job_id (qc_results d)
      else map job_id (qc_results d) @ [job_id r])"
proof (cases "job_id r \<in> set (map job_id (qc_results d))")
  case True
  then show ?thesis
    unfolding upsertQC_rows[OF assms] by (simp only: if_True replace_keys)
next
  case False
  then show ?thesis
    unfolding upsertQC_rows[OF assms] by simp
qed

lemma upsertQC_keys:
  "set (map job_id (qc_results d)) \<subseteq> set (map job_id (qc_results (snd (upsertQC f d r))))"
proof (cases "fst (upsertQC f d r) = None")
  case True
  show ?thesis
    unfolding upsertQC_key_list[OF True] by auto
next
  case False
  then show ?thesis by (simp add: upsertQC_failed)
qed

lemma upsertQC_key_stored:
  assumes "fst (upsertQC f d r) = None"
  shows "job_id r \<in> set (map job_id (qc_results (snd (upsertQC f d r))))"
proof -
  from assms have n: "f = None" by (rule upsertQC_fault)
  from assms have "upsertQC None d r = (None, snd (upsertQC None d r))"
    unfolding n by (metis prod.collapse)
  from upsertQC_stored[OF this] show ?thesis
    unfolding n by auto
qed

lemma filter_key_unique:
  "distinct (map f xs) \<Longrightarrow> x \<in> set xs \<Longrightarrow> filter (\<lambda>y. f y = f x) xs = [x]"
proof (induction xs)
  case Nil
  then show ?case by simp
next
  case (Cons a xs)
  show ?case
  proof (cases "a = x")
    case True
    have "filter (\<lambda>y. f y = f x) xs = []"
      using Cons.prems(1) True by (auto simp add: filter_empty_conv image_iff)
    with True show ?thesis by simp
  next
    case False
    with Cons.prems have "x \<in> set xs" "f a \<noteq> f x" by auto
    with Cons show ?thesis by simp
  qed
qed

lemma upsertQC_distinct:
  assumes "distinct (map job_id (qc_results d))"
  shows "distinct (map job_id (qc_results (snd (upsertQC f d r))))"
proof (cases "fst (upsertQC f d r) = None")
  case True
  from assms show ?thesis
    unfolding upsertQC_key_list[OF True] by auto
next
  case False
  with assms show ?thesis by (simp add: upsertQC_failed)
qed

text \<open>
  Claim C6. For every key and every two rows \<open>v1\<close>, \<open>v2\<close> with that key, on a table
  whose keys are distinct: after a successful upsert of \<open>v1\<close> followed by a successful
  upsert of \<open>v2\<close> the table holds exactly one row with the key, and it is \<open>v2\<close>; the
  keys are still distinct; and the result (returned error and database) is that of
  upserting \<open>v2\<close> alone.
\<close>

theorem upsertQC_twice:
  assumes pk: "distinct (map job_id (qc_results d))"
    and same: "job_id v1 = job_id v2"
    and first: "fst (upsertQC f1 d v1) = None"
    and second: "fst (upsertQC f2 (snd (upsertQC f1 d v1)) v2) = None"
  shows "filter (\<lambda>r. job_id r = job_id v2)
           (qc_results (snd (upsertQC f2 (snd (upsertQC f1 d v1)) v2))) = [v2] \<and>
         distinct (map job_id (qc_results (snd (upsertQC f2 (snd (upsertQC f1 d v1)) v2)))) \<and>
         upsertQC f2 (snd (upsertQC f1 d v1)) v2 = upsertQC f2 d v2"
proof -
  let ?d1 = "snd (upsertQC f1 d v1)"
  let ?d2 = "snd (upsertQC f2 ?d1 v2)"
  have pk2: "distinct (map job_id (qc_results ?d2))"
    using pk by (intro upsertQC_distinct)
  have "upsertQC None ?d1 v2 = (None, snd (upsertQC None ?d1 v2))"
    using second upsertQC_fault[OF second] by (metis prod.collapse)
  from upsertQC_stored[OF this] upsertQC_fault[OF second]
  have v2: "v2 \<in> set (qc_results ?d2)"
    by auto
  have one: "filter (\<lambda>r. job_id r = job_id v2) (qc_results ?d2) = [v2]"
    using pk2 v2 by (rule filter_key_unique)
  have f1: "f1 = None" and f2: "f2 = None"
    using first second by (auto dest: upsertQC_fault)
  have known: "job_id v2 \<in> set (map job_id (qc_results d)) \<or> job_id v2 \<in> set (map ID (jobs d))"
    using first same unfolding f1 by (auto simp add: upsertQC_def split: if_splits)
  have same_state: "upsertQC f2 ?d1 v2 = upsertQC f2 d v2"
  proof (cases "job_id v2 \<in> set (map job_id (qc_results d))")
    case True
    have d1: "?d1 = d\<lparr>qc_results :=
        map (\<lambda>x. if job_id x = job_id v1 then v1 else x) (qc_results d)\<rparr>"
      unfolding f1 upsertQC_None using True same by simp
    have k: "job_id v2 \<in> set (map job_id
        (map (\<lambda>x. if job_id x = job_id v1 then v1 else x) (qc_results d)))"
      unfolding replace_keys using True .
    have "upsertQC None ?d1 v2 = (None, ?d1\<lparr>qc_results :=
        map (\<lambda>x. if job_id x = job_id v2 then v2 else x) (qc_results ?d1)\<rparr>)"
      unfolding upsertQC_None[of ?d1] unfolding d1 using k by simp
    also have "\<dots> = (None, d\<lparr>qc_results :=
        map (\<lambda>x. if job_id x = job_id v2 then v2 else x) (qc_results d)\<rparr>)"
      unfolding d1 using replace_twice[OF same, of "qc_results d"] by simp
    also have "\<dots> = upsertQC None d v2"
      unfolding upsertQC_None[of d] using True by simp
    finally show ?thesis unfolding f2 .
  next
    case False
    with known have job: "job_id v2 \<in> set (map ID (jobs d))" by blast
    have d1: "?d1 = d\<lparr>qc_results := qc_results d @ [v1]\<rparr>"
      unfolding f1 upsertQC_None using False job same by simp
    have "upsertQC None ?d1 v2 = (None, ?d1\<lparr>qc_results :=
        map (\<lambda>x. if job_id x = job_id v2 then v2 else x) (qc_results ?d1)\<rparr>)"
      unfolding upsertQC_None[of ?d1] unfolding d1 using same by simp
    also have "\<dots> = (None, d\<lparr>qc_results := qc_results d @ [v2]\<rparr>)"
      unfolding d1 using replace_absent[OF False] same by simp
    also have "\<dots> = upsertQC None d v2"
      unfolding upsertQC_None[of d] using False job by simp
    finally show ?thesis unfolding f2 .
  qed
  from one pk2 same_state show ?thesis by blast
qed

theorem upsertQC_twice_witness:
  "distinct (map job_id (qc_results example_db)) \<and>
   job_id example_row1 = job_id example_row2 \<and>
   fst (upsertQC None example_db example_row1) = None \<and>
   fst (upsertQC None (snd (upsertQC None example_db example_row1)) example_row2) = None \<and>
   filter (\<lambda>r. job_id r = ''j1'')
     (qc_results (snd (upsertQC None (snd (upsertQC None example_db example_row1)) example_row2)))
     = [example_row2] \<and>
   upsertQC None (snd (upsertQC None example_db example_row1)) example_row2
     = upsertQC None example_db example_row2"
proof -
  have h1: "distinct (map job_id (qc_results example_db))"
    by (simp add: example_db_def)
  have h2: "job_id example_row1 = job_id example_row2"
    by (simp add: example_row1_def example_row2_def)
  have h3: "fst (upsertQC None example_db example_row1) = None"
    by (simp add: upsertQC_def example_db_def example_job_def example_row1_def)
  have h4: "fst (upsertQC None (snd (upsertQC None example_db example_row1)) example_row2) = None"
    by (simp add: upsertQC_def example_db_def example_job_def example_row1_def example_row2_def)
  have k: "job_id example_row2 = ''j1''"
    by (simp add: example_row2_def)
  from upsertQC_twice[OF h1 h2 h3 h4] h1 h2 h3 h4 show ?thesis
    unfolding k by blast
qed

section \<open>Properties of the consume loop\<close>

lemma processFASTQ_jobs [simp]: "jobs (snd (processFASTQ env d j p)) = jobs d"
  by (simp add: processFASTQ_def Let_def split: sum.splits prod.splits option.splits)

lemma processFASTQ_failed:
  "fst (processFASTQ env d j p) \<noteq> None \<Longrightarrow> snd (processFASTQ env d j p) = d"
  by (auto simp add: processFASTQ_def Let_def upsertQC_failed
      split: sum.splits prod.splits option.splits)

lemma processFASTQ_key_stored:
  "fst (processFASTQ env d j p) = None \<Longrightarrow>
   j \<in> set (map job_id (qc_results (snd (processFASTQ env d j p))))"
  by (auto simp add: processFASTQ_def Let_def
      split: sum.splits prod.splits option.splits dest: upsertQC_key_stored)

lemma processFASTQ_keys:
  "set (map job_id (qc_results d)) \<subseteq> set (map job_id (qc_results (snd (processFASTQ env d j p))))"
  using upsertQC_keys
  by (auto simp add: processFASTQ_def Let_def split: sum.splits prod.splits option.splits)

text \<open>The two shapes of a decoded delivery.\<close>

lemma handleDelivery_failure:
  assumes "fst (processFASTQ env (snd (setStatus (failProcessing env) d (JobID msg) StProcessing None))
              (JobID msg) (Path msg)) = Some e"
  shows "handleDelivery env d (Inr msg) =
    (let d1 = snd (setStatus (failProcessing env) d (JobID msg) StProcessing None);
         d3 = snd (setStatus (failError env) d1 (JobID msg) StError (Some (Error_text e)))
     in [(CallSetStatus (JobID msg) StProcessing None, d1),
         (CallProcessFASTQ (JobID msg) (Path msg), d1),
         (Nack False False, d1),
         (CallSetStatus (JobID msg) StError (Some (Error_text e)), d3),
         (Inc_jobFailures, d3)])"
proof -
  let ?d1 = "snd (setStatus (failProcessing env) d (JobID msg) StProcessing None)"
  have "snd (processFASTQ env ?d1 (JobID msg) (Path msg)) = ?d1"
    using assms by (intro processFASTQ_failed) simp
  with assms have "processFASTQ env ?d1 (JobID msg) (Path msg) = (Some e, ?d1)"
    by (metis prod.collapse)
  then show ?thesis
    by (simp add: handleDelivery_def Let_def)
qed

lemma handleDelivery_success:
  assumes "fst (processFASTQ env (snd (setStatus (failProcessing env) d (JobID msg) StProcessing None))
              (JobID msg) (Path msg)) = None"
  shows "handleDelivery env d (Inr msg) =
    (let d1 = snd (setStatus (failProcessing env) d (JobID msg) StProcessing None);
         d2 = snd (processFASTQ env d1 (JobID msg) (Path msg));
         d4 = snd (setDone (failDone env) (doneAt env) d2 (JobID msg))
     in [(CallSetStatus (JobID msg) StProcessing None, d1),
         (CallProcessFASTQ (JobID msg) (Path msg), d2),
         (Ack False, d2),
         (Inc_jobsProcessed, d2),
         (Observe_jobDuration (elapsedMs env), d2),
         (CallSetDone (JobID msg), d4)])"
proof -
  let ?d1 = "snd (setStatus (failProcessing env) d (JobID msg) StProcessing None)"
  obtain d2 where p: "processFASTQ env ?d1 (JobID msg) (Path msg) = (None, d2)"
    using assms by (cases "processFASTQ env ?d1 (JobID msg) (Path msg)") simp
  show ?thesis
    by (simp add: handleDelivery_def Let_def p)
qed

lemma setStatus_row:
  assumes "j \<in> set (jobs d)" and "ID j = i"
  shows "j\<lparr>Status := st, Error := e\<rparr> \<in> set (jobs (snd (setStatus None d i st e)))"
    and "\<forall>j'\<in>set (jobs (snd (setStatus None d i st e))). ID j' = i \<longrightarrow> Status j' = st \<and> Error j' = e"
  using assms by (auto simp add: setStatus_jobs image_iff)

lemma handleDelivery_hd:
  "hd (handleDelivery env d (Inr msg)) =
     (CallSetStatus (JobID msg) StProcessing None,
      snd (setStatus (failProcessing env) d (JobID msg) StProcessing None))"
  by (simp add: handleDelivery_def Let_def split: prod.splits)

lemma setDone_row:
  assumes "j \<in> set (jobs d)" and "ID j = i"
  shows "j\<lparr>Status := StDone, CompletedAt := Some now\<rparr> \<in> set (jobs (snd (setDone None now d i)))"
    and "\<forall>j'\<in>set (jobs (snd (setDone None now d i))). ID j' = i \<longrightarrow>
           Status j' = StDone \<and> CompletedAt j' = Some now"
  using assms by (auto simp add: setDone_jobs image_iff)

lemma setStatus_others:
  "\<forall>j'\<in>set (jobs d). ID j' \<noteq> i \<longrightarrow> j' \<in> set (jobs (snd (setStatus f d i st e)))"
  by (auto simp add: setStatus_jobs image_iff)

lemma setDone_others:
  "\<forall>j'\<in>set (jobs d). ID j' \<noteq> i \<longrightarrow> j' \<in> set (jobs (snd (setDone f now d i)))"
  by (auto simp add: setDone_jobs image_iff)

lemma setDone_error:
  "map Error (jobs (snd (setDone f now d i))) = map Error (jobs d)"
  by (simp add: setDone_jobs comp_def cong: map_cong)

text \<open>
  Claim C8. For every decoded work item of a known job whose \<^verbatim>\<open>processFASTQ\<close> call
  returns an error \<open>e\<close>, when the statement that records the failure executes: the
  effects are the Processing transition, the analysis, a negative acknowledgment without
  requeue (\<^verbatim>\<open>Nack(false, false)\<close>), the transition to \<^verbatim>\<open>error\<close> carrying the text of
  \<open>e\<close>, and the failure counter, and no acknowledgment; the job ends in state
  \<^verbatim>\<open>error\<close> with \<^verbatim>\<open>error\<close> column equal to that text; and at no point of the delivery
  does table \<^verbatim>\<open>qc_results\<close> differ from what it was before.
\<close>

theorem failed_analysis:
  assumes failed: "fst (processFASTQ env (snd (setStatus (failProcessing env) d (JobID msg) StProcessing None))
              (JobID msg) (Path msg)) = Some e"
    and executes: "failError env = None"
    and known: "JobID msg \<in> set (map ID (jobs d))"
  shows "map fst (handleDelivery env d (Inr msg)) =
      [CallSetStatus (JobID msg) StProcessing None,
       CallProcessFASTQ (JobID msg) (Path msg),
       Nack False False,
       CallSetStatus (JobID msg) StError (Some (Error_text e)),
       Inc_jobFailures] \<and>
    (\<exists>j\<in>set (jobs (finalDB env d (Inr msg))). ID j = JobID msg) \<and>
    (\<forall>j\<in>set (jobs (finalDB env d (Inr msg))). ID j = JobID msg \<longrightarrow>
       Status j = StError \<and> Error j = Some (Error_text e)) \<and>
    (\<forall>(ef, d')\<in>set (handleDelivery env d (Inr msg)). qc_results d' = qc_results d)"
proof -
  let ?d1 = "snd (setStatus (failProcessing env) d (JobID msg) StProcessing None)"
  let ?d3 = "snd (setStatus None ?d1 (JobID msg) StError (Some (Error_text e)))"
  note shape = handleDelivery_failure[OF failed, unfolded Let_def executes]
  have fin: "finalDB env d (Inr msg) = ?d3"
    unfolding finalDB_def shape by simp
  from known have "JobID msg \<in> ID ` set (jobs ?d1)"
    unfolding set_map[symmetric] by simp
  then obtain j where j: "j \<in> set (jobs ?d1)" "ID j = JobID msg"
    by (metis imageE)
  have ex: "\<exists>j\<in>set (jobs ?d3). ID j = JobID msg"
    using known by (metis (no_types) setStatus_ids imageE list.set_map)
  have all: "\<forall>j\<in>set (jobs ?d3). ID j = JobID msg \<longrightarrow> Status j = StError \<and> Error j = Some (Error_text e)"
    using setStatus_row(2)[OF j] .
  have qc: "\<forall>(ef, d')\<in>set (handleDelivery env d (Inr msg)). qc_results d' = qc_results d"
    unfolding shape by simp
  have order: "map fst (handleDelivery env d (Inr msg)) =
      [CallSetStatus (JobID msg) StProcessing None,
       CallProcessFASTQ (JobID msg) (Path msg),
       Nack False False,
       CallSetStatus (JobID msg) StError (Some (Error_text e)),
       Inc_jobFailures]"
    unfolding shape by simp
  from order ex all qc show ?thesis
    unfolding fin by blast
qed

theorem failed_analysis_witness:
  "fst (processFASTQ example_env
         (snd (setStatus (failProcessing example_env) example_db (JobID missing_msg) StProcessing None))
         (JobID missing_msg) (Path missing_msg)) = Some (Err ''open: no such file or directory'') \<and>
   failError example_env = None \<and>
   JobID missing_msg \<in> set (map ID (jobs example_db)) \<and>
   map fst (handleDelivery example_env example_db (Inr missing_msg)) =
     [CallSetStatus ''j1'' StProcessing None,
      CallProcessFASTQ ''j1'' ''/data/uploads/j1_gone.fastq'',
      Nack False False,
      CallSetStatus ''j1'' StError (Some ''open: no such file or directory''),
      Inc_jobFailures] \<and>
   list_ex (\<lambda>j. ID j = ''j1'' \<and> Status j = StError \<and>
                 Error j = Some ''open: no such file or directory'')
     (jobs (finalDB example_env example_db (Inr missing_msg))) \<and>
   list_all (\<lambda>p. qc_results (snd p) = [])
     (handleDelivery example_env example_db (Inr missing_msg))"
proof -
  have h1: "fst (processFASTQ example_env
         (snd (setStatus (failProcessing example_env) example_db (JobID missing_msg) StProcessing None))
         (JobID missing_msg) (Path missing_msg)) = Some (Err ''open: no such file or directory'')"
    by (simp add: processFASTQ_def example_env_def missing_msg_def example_path_def)
  have h2: "failError example_env = None"
    by (simp add: example_env_def)
  have h3: "JobID missing_msg \<in> set (map ID (jobs example_db))"
    by (simp add: missing_msg_def example_db_def example_job_def)
  have j: "JobID missing_msg = ''j1''" "Path missing_msg = ''/data/uploads/j1_gone.fastq''"
    by (simp_all add: missing_msg_def)
  have q: "qc_results example_db = []"
    by (simp add: example_db_def)
  from failed_analysis[OF h1 h2 h3] h1 h2 h3 show ?thesis
    unfolding list_all_iff list_ex_iff j q by auto
qed

text \<open>
  Claim C4, amended. For every work item whose \<^verbatim>\<open>processFASTQ\<close> call succeeds (the
  upsert of the metrics is its last step), the effects come in this order: the Processing
  transition, the analysis with its upsert, the acknowledgment \<^verbatim>\<open>Ack(false)\<close>, the two
  metrics, and only then the call of \<^verbatim>\<open>setDone\<close>. At the acknowledgment the result row
  of the job is stored, and the jobs table is still as the Processing transition left it:
  the Done transition is written after the acknowledgment, on the database of that point.
\<close>

theorem success_order:
  assumes "fst (processFASTQ env (snd (setStatus (failProcessing env) d (JobID msg) StProcessing None))
              (JobID msg) (Path msg)) = None"
  shows "map fst (handleDelivery env d (Inr msg)) =
      [CallSetStatus (JobID msg) StProcessing None,
       CallProcessFASTQ (JobID msg) (Path msg),
       Ack False,
       Inc_jobsProcessed,
       Observe_jobDuration (elapsedMs env),
       CallSetDone (JobID msg)] \<and>
    JobID msg \<in> set (map job_id (qc_results (snd (handleDelivery env d (Inr msg) ! 2)))) \<and>
    jobs (snd (handleDelivery env d (Inr msg) ! 2)) =
      jobs (snd (setStatus (failProcessing env) d (JobID msg) StProcessing None)) \<and>
    finalDB env d (Inr msg) =
      snd (setDone (failDone env) (doneAt env) (snd (handleDelivery env d (Inr msg) ! 2)) (JobID msg))"
proof -
  note shape = handleDelivery_success[OF assms, unfolded Let_def]
  have order: "map fst (handleDelivery env d (Inr msg)) =
      [CallSetStatus (JobID msg) StProcessing None,
       CallProcessFASTQ (JobID msg) (Path msg),
       Ack False,
       Inc_jobsProcessed,
       Observe_jobDuration (elapsedMs env),
       CallSetDone (JobID msg)]"
    unfolding shape by simp
  have at_ack: "snd (handleDelivery env d (Inr msg) ! 2) =
      snd (processFASTQ env (snd (setStatus (failProcessing env) d (JobID msg) StProcessing None))
              (JobID msg) (Path msg))"
    unfolding shape by simp
  have stored: "JobID msg \<in> set (map job_id (qc_results (snd (handleDelivery env d (Inr msg) ! 2))))"
    unfolding at_ack using assms by (rule processFASTQ_key_stored)
  have same: "jobs (snd (handleDelivery env d (Inr msg) ! 2)) =
      jobs (snd (setStatus (failProcessing env) d (JobID msg) StProcessing None))"
    unfolding at_ack by simp
  have fin: "finalDB env d (Inr msg) =
      snd (setDone (failDone env) (doneAt env) (snd (handleDelivery env d (Inr msg) ! 2)) (JobID msg))"
    unfolding at_ack unfolding finalDB_def shape by simp
  from order stored same fin show ?thesis by blast
qed

theorem success_order_witness:
  "fst (processFASTQ example_env
         (snd (setStatus (failProcessing example_env) example_db (JobID example_msg) StProcessing None))
         (JobID example_msg) (Path example_msg)) = None \<and>
   map fst (handleDelivery example_env example_db (Inr example_msg)) =
     [CallSetStatus ''j1'' StProcessing None,
      CallProcessFASTQ ''j1'' example_path,
      Ack False,
      Inc_jobsProcessed,
      Observe_jobDuration 25,
      CallSetDone ''j1''] \<and>
   ''j1'' \<in> set (map job_id (qc_results (snd (handleDelivery example_env example_db (Inr example_msg) ! 2)))) \<and>
   map Status (jobs (snd (handleDelivery example_env example_db (Inr example_msg) ! 2))) = [StProcessing] \<and>
   map Status (jobs (finalDB example_env example_db (Inr example_msg))) = [StDone]"
proof -
  have h: "fst (processFASTQ example_env
         (snd (setStatus (failProcessing example_env) example_db (JobID example_msg) StProcessing None))
         (JobID example_msg) (Path example_msg)) = None"
    by (simp add: processFASTQ_def example_env_def example_msg_def upsertQC_def setStatus_def
        example_db_def example_job_def Let_def)
  have m: "JobID example_msg = ''j1''" "Path example_msg = example_path"
      "elapsedMs example_env = 25"
    by (simp_all add: example_msg_def example_env_def)
  have at_ack: "map Status (jobs (snd (handleDelivery example_env example_db (Inr example_msg) ! 2)))
      = [StProcessing]"
    by code_simp
  have fin: "map Status (jobs (finalDB example_env example_db (Inr example_msg))) = [StDone]"
    by code_simp
  from success_order[OF h] h at_ack fin show ?thesis
    unfolding m by blast
qed

text \<open>
  The claim as worded fails on the sample run: the acknowledgment is not preceded by the
  call that writes Done.
\<close>

theorem acked_only_after_done_counterexample:
  "\<not> acked_only_after_done (map fst (handleDelivery example_env example_db (Inr example_msg)))"
  by code_simp

text \<open>
  Claim C10. When the first statement of a delivery executes, it is the call
  \<^verbatim>\<open>setStatus(jobID, "processing", nil)\<close>, and right after it every row of that job,
  whatever state and failure reason it had, has state Processing and a null
  \<^verbatim>\<open>error\<close>; no call of the delivery that sets state Processing passes a failure
  reason.
\<close>

theorem processing_clears_error:
  assumes executes: "failProcessing env = None"
    and row: "j \<in> set (jobs d)" "ID j = JobID msg"
  shows "fst (hd (handleDelivery env d (Inr msg))) = CallSetStatus (JobID msg) StProcessing None \<and>
    j\<lparr>Status := StProcessing, Error := None\<rparr> \<in> set (jobs (snd (hd (handleDelivery env d (Inr msg))))) \<and>
    (\<forall>j'\<in>set (jobs (snd (hd (handleDelivery env d (Inr msg))))).
        ID j' = JobID msg \<longrightarrow> Status j' = StProcessing \<and> Error j' = None) \<and>
    (\<forall>(ef, d')\<in>set (handleDelivery env d (Inr msg)).
        \<forall>i m. ef = CallSetStatus i StProcessing m \<longrightarrow> m = None)"
proof -
  have first: "hd (handleDelivery env d (Inr msg)) =
     (CallSetStatus (JobID msg) StProcessing None,
      snd (setStatus None d (JobID msg) StProcessing None))"
    unfolding handleDelivery_hd executes ..
  have calls: "\<forall>(ef, d')\<in>set (handleDelivery env d (Inr msg)).
        \<forall>i m. ef = CallSetStatus i StProcessing m \<longrightarrow> m = None"
  proof (cases "fst (processFASTQ env (snd (setStatus (failProcessing env) d (JobID msg) StProcessing None))
              (JobID msg) (Path msg))")
    case None
    show ?thesis
      unfolding handleDelivery_success[OF None, unfolded Let_def] by simp
  next
    case (Some e)
    show ?thesis
      unfolding handleDelivery_failure[OF Some, unfolded Let_def] by simp
  qed
  from setStatus_row[OF row, where st = StProcessing and e = None] calls show ?thesis
    unfolding first by simp
qed

theorem processing_clears_error_witness:
  "failProcessing example_env = None \<and>
   hd (jobs example_failed_db) \<in> set (jobs example_failed_db) \<and>
   ID (hd (jobs example_failed_db)) = JobID example_msg \<and>
   Error (hd (jobs example_failed_db)) = Some ''open: no such file or directory'' \<and>
   fst (hd (handleDelivery example_env example_failed_db (Inr example_msg))) =
     CallSetStatus ''j1'' StProcessing None \<and>
   list_all (\<lambda>j. Status j = StProcessing \<and> Error j = None)
     (jobs (snd (hd (handleDelivery example_env example_failed_db (Inr example_msg)))))"
proof -
  have h1: "failProcessing example_env = None"
    by (simp add: example_env_def)
  have h2: "hd (jobs example_failed_db) \<in> set (jobs example_failed_db)"
    by (simp add: example_failed_db_def)
  have h3: "ID (hd (jobs example_failed_db)) = JobID example_msg"
    by (simp add: example_failed_db_def example_msg_def)
  have h4: "Error (hd (jobs example_failed_db)) = Some ''open: no such file or directory''"
    by (simp add: example_failed_db_def)
  have m: "JobID example_msg = ''j1''"
    by (simp add: example_msg_def)
  have ids: "list_all (\<lambda>j. ID j = ''j1'')
      (jobs (snd (hd (handleDelivery example_env example_failed_db (Inr example_msg)))))"
    unfolding handleDelivery_hd list_all_iff
    by (simp add: setStatus_jobs example_failed_db_def)
  from processing_clears_error[OF h1 h2 h3] h1 h2 h3 h4 ids show ?thesis
    unfolding m list_all_iff by auto
qed

text \<open>
  Claim C2, amended. No transition is rejected or ignored because of the state the job is
  in: for a stored job with the given id, whatever its state, \<^verbatim>\<open>setStatus\<close> overwrites
  state and failure reason with the values passed, and \<^verbatim>\<open>setDone\<close> overwrites state and
  completion time. What they leave alone: \<^verbatim>\<open>setStatus\<close> the completion times,
  \<^verbatim>\<open>setDone\<close> the failure reasons, and both the rows of every other job.
\<close>

theorem transitions_unguarded:
  assumes "j \<in> set (jobs d)" and "ID j = i"
  shows "j\<lparr>Status := st, Error := e\<rparr> \<in> set (jobs (snd (setStatus None d i st e))) \<and>
    (\<forall>j'\<in>set (jobs (snd (setStatus None d i st e))). ID j' = i \<longrightarrow> Status j' = st \<and> Error j' = e) \<and>
    (\<forall>j'\<in>set (jobs d). ID j' \<noteq> i \<longrightarrow> j' \<in> set (jobs (snd (setStatus None d i st e)))) \<and>
    map CompletedAt (jobs (snd (setStatus None d i st e))) = map CompletedAt (jobs d) \<and>
    j\<lparr>Status := StDone, CompletedAt := Some now\<rparr> \<in> set (jobs (snd (setDone None now d i))) \<and>
    (\<forall>j'\<in>set (jobs (snd (setDone None now d i))). ID j' = i \<longrightarrow>
        Status j' = StDone \<and> CompletedAt j' = Some now) \<and>
    (\<forall>j'\<in>set (jobs d). ID j' \<noteq> i \<longrightarrow> j' \<in> set (jobs (snd (setDone None now d i)))) \<and>
    map Error (jobs (snd (setDone None now d i))) = map Error (jobs d)"
  using setStatus_row[OF assms, where st = st and e = e]
    setStatus_others[where d = d and i = i and f = None and st = st and e = e]
    setStatus_completed[where f = None and d = d and i = i and st = st and e = e]
    setDone_row[OF assms, where now = now]
    setDone_others[where d = d and i = i and f = None and now = now]
    setDone_error[where f = None and now = now and d = d and i = i]
  by blast

theorem transitions_unguarded_witness:
  "hd (jobs example_done_db) \<in> set (jobs example_done_db) \<and>
   ID (hd (jobs example_done_db)) = ''j1'' \<and>
   Status (hd (jobs example_done_db)) = StDone \<and>
   (hd (jobs example_done_db))\<lparr>Status := StProcessing, Error := None\<rparr>
     \<in> set (jobs (snd (setStatus None example_done_db ''j1'' StProcessing None))) \<and>
   map CompletedAt (jobs (snd (setStatus None example_done_db ''j1'' StProcessing None))) = [Some 101] \<and>
   (hd (jobs example_done_db))\<lparr>Status := StDone, CompletedAt := Some 205\<rparr>
     \<in> set (jobs (snd (setDone None 205 example_done_db ''j1'')))"
proof -
  have h1: "hd (jobs example_done_db) \<in> set (jobs example_done_db)"
    by (simp add: example_done_db_def)
  have h2: "ID (hd (jobs example_done_db)) = ''j1''"
    by (simp add: example_done_db_def)
  have h3: "Status (hd (jobs example_done_db)) = StDone"
    by (simp add: example_done_db_def)
  have c: "map CompletedAt (jobs example_done_db) = [Some 101]"
    by (simp add: example_done_db_def)
  from transitions_unguarded[OF h1 h2, where st = StProcessing and e = None and now = 205] h1 h2 h3
  show ?thesis
    unfolding c by blast
qed

text \<open>
  The claim as worded fails on a redelivery: the delivery's first call moves a Done job
  back to Processing, and erases the failure reason of a Failed one.
\<close>

theorem terminal_overwritten_counterexample:
  "map Status (jobs example_done_db) = [StDone] \<and>
   map Status (jobs (snd (setStatus None example_done_db ''j1'' StProcessing None))) = [StProcessing] \<and>
   map Status (jobs (snd (hd (handleDelivery example_env example_done_db (Inr example_msg)))))
     = [StProcessing] \<and>
   map Error (jobs example_failed_db) = [Some ''open: no such file or directory''] \<and>
   map Error (jobs (snd (hd (handleDelivery example_env example_failed_db (Inr example_msg)))))
     = [None]"
  by (simp add: handleDelivery_hd setStatus_jobs example_done_db_def example_failed_db_def
      example_env_def example_msg_def)

section \<open>Properties of \<^verbatim>\<open>handleSubmit\<close> and \<^verbatim>\<open>handleGetJob\<close>\<close>

lemma handleSubmit_idb:
  "idb (snd (handleSubmit env st)) = idb st \<or>
   (\<exists>name. idb (snd (handleSubmit env st)) =
      snd (insertJob (failInsert env) (submitTime env) (idb st) (newUUID env) name))"
  by (auto simp add: handleSubmit_def Let_def split: option.splits sum.splits prod.splits)
     (metis snd_conv)+


lemma handleSubmit_published:
  "published (snd (handleSubmit env st)) = published st \<or>
   (\<exists>msg. fst (handleSubmit env st) = HttpOK (newUUID env) \<and>
      published (snd (handleSubmit env st)) = published st @ [msg])"
  by (auto simp add: handleSubmit_def Let_def split: option.splits sum.splits prod.splits)

lemma insertJob_ok:
  assumes "fst (insertJob f now d i name) = None"
  shows "jobs (snd (insertJob f now d i name)) =
      jobs d @ [\<lparr>ID = i, Filename = name, Status = StQueued, Error = None,
                 SubmittedAt = now, CompletedAt = None\<rparr>]"
    and "qc_results (snd (insertJob f now d i name)) = qc_results d"
    and "i \<notin> set (map ID (jobs d))"
  using assms by (auto simp add: insertJob_def split: option.splits if_splits)

lemma insertJob_failed:
  "fst (insertJob f now d i name) \<noteq> None \<Longrightarrow> snd (insertJob f now d i name) = d"
  by (auto simp add: insertJob_def split: option.splits if_splits)




section \<open>Invariants at every observable point\<close>

lemma completed_inv_setStatus:
  assumes "completed_inv d" and "st \<noteq> StDone" and "st \<noteq> StQueued"
  shows "completed_inv (snd (setStatus f d i st e))"
  using assms unfolding completed_inv_def setStatus_jobs by auto

lemma completed_inv_setDone:
  assumes "completed_inv d"
  shows "completed_inv (snd (setDone f now d i))"
  using assms unfolding completed_inv_def setDone_jobs by auto

lemma completed_inv_processFASTQ:
  assumes "completed_inv d"
  shows "completed_inv (snd (processFASTQ env d j p))"
  using assms unfolding completed_inv_def by simp

lemma completed_inv_insertJob:
  assumes "completed_inv d"
  shows "completed_inv (snd (insertJob f now d i name))"
  using assms unfolding completed_inv_def insertJob_def
  by (auto split: option.splits)

lemma done_has_result_setStatus:
  assumes "done_has_result d" and "st \<noteq> StDone"
  shows "done_has_result (snd (setStatus f d i st e))"
  using assms unfolding done_has_result_def setStatus_jobs by auto

lemma done_has_result_processFASTQ:
  assumes "done_has_result d"
  shows "done_has_result (snd (processFASTQ env d j p))"
  using assms processFASTQ_keys[of d env j p] unfolding done_has_result_def
  by (simp only: processFASTQ_jobs) blast

lemma done_has_result_setDone:
  assumes "done_has_result d" and "i \<in> set (map job_id (qc_results d))"
  shows "done_has_result (snd (setDone f now d i))"
  using assms unfolding done_has_result_def setDone_jobs by auto

lemma done_has_result_insertJob:
  assumes "done_has_result d"
  shows "done_has_result (snd (insertJob f now d i name))"
  using assms unfolding done_has_result_def insertJob_def
  by (auto split: option.splits)

lemma handleDelivery_completed:
  assumes "completed_inv d"
  shows "\<forall>(ef, d')\<in>set (handleDelivery env d body). completed_inv d'"
proof (cases body)
  case (Inl e)
  with assms show ?thesis by (simp add: handleDelivery_def)
next
  case (Inr msg)
  let ?d1 = "snd (setStatus (failProcessing env) d (JobID msg) StProcessing None)"
  let ?d2 = "snd (processFASTQ env ?d1 (JobID msg) (Path msg))"
  have d1: "completed_inv ?d1" using assms by (simp add: completed_inv_setStatus)
  then have d2: "completed_inv ?d2" by (rule completed_inv_processFASTQ)
  show ?thesis
  proof (cases "fst (processFASTQ env ?d1 (JobID msg) (Path msg))")
    case None
    have "completed_inv (snd (setDone (failDone env) (doneAt env) ?d2 (JobID msg)))"
      using d2 by (rule completed_inv_setDone)
    with d1 d2 show ?thesis
      unfolding Inr handleDelivery_success[OF None, unfolded Let_def] by simp
  next
    case (Some e)
    have "completed_inv (snd (setStatus (failError env) ?d1 (JobID msg) StError (Some (Error_text e))))"
      using d1 by (simp add: completed_inv_setStatus)
    with d1 show ?thesis
      unfolding Inr handleDelivery_failure[OF Some, unfolded Let_def] by simp
  qed
qed

lemma handleDelivery_done_has_result:
  assumes "done_has_result d"
  shows "\<forall>(ef, d')\<in>set (handleDelivery env d body). done_has_result d'"
proof (cases body)
  case (Inl e)
  with assms show ?thesis by (simp add: handleDelivery_def)
next
  case (Inr msg)
  let ?d1 = "snd (setStatus (failProcessing env) d (JobID msg) StProcessing None)"
  let ?d2 = "snd (processFASTQ env ?d1 (JobID msg) (Path msg))"
  have d1: "done_has_result ?d1" using assms by (simp add: done_has_result_setStatus)
  then have d2: "done_has_result ?d2" by (rule done_has_result_processFASTQ)
  show ?thesis
  proof (cases "fst (processFASTQ env ?d1 (JobID msg) (Path msg))")
    case None
    have "done_has_result (snd (setDone (failDone env) (doneAt env) ?d2 (JobID msg)))"
      using d2 processFASTQ_key_stored[OF None] by (rule done_has_result_setDone)
    with d1 d2 show ?thesis
      unfolding Inr handleDelivery_success[OF None, unfolded Let_def] by simp
  next
    case (Some e)
    have "done_has_result (snd (setStatus (failError env) ?d1 (JobID msg) StError (Some (Error_text e))))"
      using d1 by (simp add: done_has_result_setStatus)
    with d1 show ?thesis
      unfolding Inr handleDelivery_failure[OF Some, unfolded Let_def] by simp
  qed
qed

lemma handleDelivery_nonempty: "handleDelivery env d body \<noteq> []"
  by (simp add: handleDelivery_def Let_def split: sum.splits prod.splits)

lemma finalDB_in_trace:
  "(fst (last (handleDelivery env d body)), finalDB env d body) \<in> set (handleDelivery env d body)"
  unfolding finalDB_def using handleDelivery_nonempty[of env d body] by simp

lemma consume_completed:
  "completed_inv d \<Longrightarrow> \<forall>(ef, d')\<in>set (consume d items). completed_inv d'"
proof (induction items arbitrary: d)
  case Nil
  show ?case by simp
next
  case (Cons item items)
  obtain env body where item: "item = (env, body)" by (cases item)
  have here: "\<forall>(ef, d')\<in>set (handleDelivery env d body). completed_inv d'"
    using Cons.prems by (rule handleDelivery_completed)
  with finalDB_in_trace[of env d body] have "completed_inv (finalDB env d body)" by blast
  then have "\<forall>(ef, d')\<in>set (consume (finalDB env d body) items). completed_inv d'"
    by (rule Cons.IH)
  with here show ?case unfolding item by auto
qed

lemma consume_done_has_result:
  "done_has_result d \<Longrightarrow> \<forall>(ef, d')\<in>set (consume d items). done_has_result d'"
proof (induction items arbitrary: d)
  case Nil
  show ?case by simp
next
  case (Cons item items)
  obtain env body where item: "item = (env, body)" by (cases item)
  have here: "\<forall>(ef, d')\<in>set (handleDelivery env d body). done_has_result d'"
    using Cons.prems by (rule handleDelivery_done_has_result)
  with finalDB_in_trace[of env d body] have "done_has_result (finalDB env d body)" by blast
  then have "\<forall>(ef, d')\<in>set (consume (finalDB env d body) items). done_has_result d'"
    by (rule Cons.IH)
  with here show ?case unfolding item by auto
qed

lemma handleSubmit_completed:
  assumes "completed_inv d"
  shows "completed_inv (idb (snd (handleSubmit senv (st\<lparr>idb := d\<rparr>))))"
proof -
  have "idb (st\<lparr>idb := d\<rparr>) = d" by simp
  with handleSubmit_idb[of senv "st\<lparr>idb := d\<rparr>"]
  have "idb (snd (handleSubmit senv (st\<lparr>idb := d\<rparr>))) = d \<or>
    (\<exists>name. idb (snd (handleSubmit senv (st\<lparr>idb := d\<rparr>))) =
          snd (insertJob (failInsert senv) (submitTime senv) d (newUUID senv) name))"
    by (simp only:)
  then show ?thesis
  proof (elim disjE exE)
    assume "idb (snd (handleSubmit senv (st\<lparr>idb := d\<rparr>))) = d"
    then show ?thesis using assms by (simp only:)
  next
    fix name
    assume e: "idb (snd (handleSubmit senv (st\<lparr>idb := d\<rparr>))) =
          snd (insertJob (failInsert senv) (submitTime senv) d (newUUID senv) name)"
    show ?thesis unfolding e using assms by (rule completed_inv_insertJob)
  qed
qed

lemma handleSubmit_done_has_result:
  assumes "done_has_result d"
  shows "done_has_result (idb (snd (handleSubmit senv (st\<lparr>idb := d\<rparr>))))"
proof -
  have "idb (st\<lparr>idb := d\<rparr>) = d" by simp
  with handleSubmit_idb[of senv "st\<lparr>idb := d\<rparr>"]
  have "idb (snd (handleSubmit senv (st\<lparr>idb := d\<rparr>))) = d \<or>
    (\<exists>name. idb (snd (handleSubmit senv (st\<lparr>idb := d\<rparr>))) =
          snd (insertJob (failInsert senv) (submitTime senv) d (newUUID senv) name))"
    by (simp only:)
  then show ?thesis
  proof (elim disjE exE)
    assume "idb (snd (handleSubmit senv (st\<lparr>idb := d\<rparr>))) = d"
    then show ?thesis using assms by (simp only:)
  next
    fix name
    assume e: "idb (snd (handleSubmit senv (st\<lparr>idb := d\<rparr>))) =
          snd (insertJob (failInsert senv) (submitTime senv) d (newUUID senv) name)"
    show ?thesis unfolding e using assms by (rule done_has_result_insertJob)
  qed
qed

lemma setDone_stamped: "\<forall>j\<in>set (jobs (snd (setDone None now d i))). ID j = i \<longrightarrow> Status j = StDone \<and> CompletedAt j = Some now"
proof (intro ballI impI)
  fix j
  assume j: "j \<in> set (jobs (snd (setDone None now d i)))" and k: "ID j = i"
  from j obtain x where x: "x \<in> set (jobs d)"
      and jx: "j = (if ID x = i then x\<lparr>Status := StDone, CompletedAt := Some now\<rparr> else x)"
    unfolding setDone_jobs by (auto simp add: image_iff)
  show "Status j = StDone \<and> CompletedAt j = Some now"
  proof (cases "ID x = i")
    case True
    with jx show ?thesis by simp
  next
    case False
    with jx have "j = x" by simp
    with False k show ?thesis by simp
  qed
qed

lemma find_key_Some:
  "find (\<lambda>x. f x = k) xs = Some y \<Longrightarrow> y \<in> set xs \<and> f y = k"
  by (induction xs) (auto split: if_splits)

lemma find_key_None:
  "find (\<lambda>x. f x = k) xs = None \<longleftrightarrow> k \<notin> set (map f xs)"
  by (induction xs) auto

lemma handleGetJob_ok:
  assumes ok: "handleGetJob failJob failQC d i = HttpOK (j, q)"
  shows "find (\<lambda>j. ID j = i) (jobs d) = Some j"
    and "q = (if failQC = None then find (\<lambda>r. job_id r = i) (qc_results d) else None)"
proof -
  have "(if failJob = None then find (\<lambda>j. ID j = i) (jobs d) else None) = Some j"
    using ok unfolding handleGetJob_def
    by (cases "if failJob = None then find (\<lambda>j. ID j = i) (jobs d) else None") simp_all
  then show "find (\<lambda>j. ID j = i) (jobs d) = Some j"
    by (cases "failJob = None") simp_all
  then show "q = (if failQC = None then find (\<lambda>r. job_id r = i) (qc_results d) else None)"
    using ok unfolding handleGetJob_def by (cases "failJob = None") simp_all
qed

text \<open>
  Claim C5, amended. The completion time is null when a job row is created and is written
  by \<^verbatim>\<open>setDone\<close> alone, on every call; \<^verbatim>\<open>setStatus\<close> never changes it. Hence, from
  a store where every Done job has a completion time and every Queued job has none, the
  same holds at every observable point of the consume loop and after every submission.
  Nothing is stated for jobs in Processing or Failed.
\<close>

theorem completed_at_discipline:
  assumes "completed_inv d"
  shows "(\<forall>(ef, d')\<in>set (consume d items). completed_inv d') \<and>
    completed_inv (idb (snd (handleSubmit senv (st\<lparr>idb := d\<rparr>)))) \<and>
    map CompletedAt (jobs (snd (setStatus f d i st' e))) = map CompletedAt (jobs d) \<and>
    (\<forall>j\<in>set (jobs (snd (setDone None now d i))). ID j = i \<longrightarrow> CompletedAt j = Some now) \<and>
    (fst (insertJob f now d i name) = None \<longrightarrow>
       CompletedAt (last (jobs (snd (insertJob f now d i name)))) = None)"
proof -
  have loop: "\<forall>(ef, d')\<in>set (consume d items). completed_inv d'"
    using assms by (rule consume_completed)
  have submit: "completed_inv (idb (snd (handleSubmit senv (st\<lparr>idb := d\<rparr>))))"
    using assms by (rule handleSubmit_completed)
  have stamped: "\<forall>j\<in>set (jobs (snd (setDone None now d i))). ID j = i \<longrightarrow> CompletedAt j = Some now"
    using setDone_stamped[of now d i] by blast
  have created: "fst (insertJob f now d i name) = None \<longrightarrow>
       CompletedAt (last (jobs (snd (insertJob f now d i name)))) = None"
    by (auto simp add: insertJob_ok(1))
  note frame = setStatus_completed[of f d i st' e]
  show ?thesis
    by (intro conjI loop submit frame stamped created)
qed

theorem completed_at_discipline_witness:
  "completed_inv example_db \<and>
   list_all (\<lambda>p. completed_inv (snd p))
     (consume example_db [(example_env, Inr example_msg), (example_env, Inr missing_msg)]) \<and>
   map CompletedAt (jobs (finalDB example_env example_db (Inr example_msg))) = [Some 101] \<and>
   map CompletedAt (jobs (snd (setStatus None example_done_db ''j1'' StProcessing None)))
     = [Some 101]"
proof -
  have h: "completed_inv example_db"
    by (simp add: completed_inv_def example_db_def example_job_def)
  have c: "map CompletedAt (jobs (finalDB example_env example_db (Inr example_msg))) = [Some 101]"
    by code_simp
  have k: "map CompletedAt (jobs example_done_db) = [Some 101]"
    by (simp add: example_done_db_def)
  from completed_at_discipline[OF h,
      of "[(example_env, Inr example_msg), (example_env, Inr missing_msg)]"
         _ _ None "''j1''" StProcessing None]
  have "\<forall>(ef, d')\<in>set (consume example_db
      [(example_env, Inr example_msg), (example_env, Inr missing_msg)]). completed_inv d'"
    by blast
  then have l: "list_all (\<lambda>p. completed_inv (snd p))
     (consume example_db [(example_env, Inr example_msg), (example_env, Inr missing_msg)])"
    unfolding list_all_iff by auto
  have f: "map CompletedAt (jobs (snd (setStatus None example_done_db ''j1'' StProcessing None)))
     = [Some 101]"
    unfolding setStatus_completed k ..
  from h l c f show ?thesis by blast
qed

text \<open>
  The claim as worded fails in both directions: a job that fails on its first run is in a
  terminal state with a null completion time, and a Done job whose work item is
  redelivered is in Processing with the completion time still set.
\<close>

theorem completed_at_counterexample:
  "map Status (jobs (finalDB example_env example_db (Inr missing_msg))) = [StError] \<and>
   map CompletedAt (jobs (finalDB example_env example_db (Inr missing_msg))) = [None] \<and>
   map Status (jobs (snd (hd (handleDelivery example_env example_done_db (Inr example_msg)))))
     = [StProcessing] \<and>
   map CompletedAt (jobs (snd (hd (handleDelivery example_env example_done_db (Inr example_msg)))))
     = [Some 101]"
  by code_simp

text \<open>
  Claim C3, amended. Every job in state Done has a row in \<^verbatim>\<open>qc_results\<close>: from a store
  where that holds, it holds at every observable point of the consume loop and after
  every submission. The converse does not hold. \<^verbatim>\<open>handleGetJob\<close> answers with a result
  exactly when its second query executes and a row with the job id exists, and then with
  that row, whatever the state of the job.
\<close>

theorem done_jobs_have_results:
  assumes "done_has_result d"
  shows "(\<forall>(ef, d')\<in>set (consume d items). done_has_result d') \<and>
    done_has_result (idb (snd (handleSubmit senv (st\<lparr>idb := d\<rparr>)))) \<and>
    (\<forall>j q. handleGetJob failJob failQC d i = HttpOK (j, q) \<longrightarrow>
       j \<in> set (jobs d) \<and> ID j = i \<and>
       (q \<noteq> None \<longleftrightarrow> failQC = None \<and> i \<in> set (map job_id (qc_results d))) \<and>
       (\<forall>r. q = Some r \<longrightarrow> r \<in> set (qc_results d) \<and> job_id r = i))"
proof -
  have loop: "\<forall>(ef, d')\<in>set (consume d items). done_has_result d'"
    using assms by (rule consume_done_has_result)
  have submit: "done_has_result (idb (snd (handleSubmit senv (st\<lparr>idb := d\<rparr>))))"
    using assms by (rule handleSubmit_done_has_result)
  have query: "\<forall>j q. handleGetJob failJob failQC d i = HttpOK (j, q) \<longrightarrow>
       j \<in> set (jobs d) \<and> ID j = i \<and>
       (q \<noteq> None \<longleftrightarrow> failQC = None \<and> i \<in> set (map job_id (qc_results d))) \<and>
       (\<forall>r. q = Some r \<longrightarrow> r \<in> set (qc_results d) \<and> job_id r = i)"
  proof (intro allI impI)
    fix j q
    assume ok: "handleGetJob failJob failQC d i = HttpOK (j, q)"
    note fj = handleGetJob_ok(1)[OF ok] and fq = handleGetJob_ok(2)[OF ok]
    from find_key_Some[OF fj] have job: "j \<in> set (jobs d) \<and> ID j = i" .
    have iff: "q \<noteq> None \<longleftrightarrow> failQC = None \<and> i \<in> set (map job_id (qc_results d))"
    proof (cases "failQC = None")
      case True
      with fq have "q = find (\<lambda>r. job_id r = i) (qc_results d)" by simp
      with True find_key_None[of job_id i "qc_results d"] show ?thesis by simp
    next
      case False
      with fq show ?thesis by simp
    qed
    have row: "\<forall>r. q = Some r \<longrightarrow> r \<in> set (qc_results d) \<and> job_id r = i"
    proof (intro allI impI)
      fix r
      assume "q = Some r"
      with fq have "find (\<lambda>r. job_id r = i) (qc_results d) = Some r"
        by (cases "failQC = None") simp_all
      then show "r \<in> set (qc_results d) \<and> job_id r = i" by (rule find_key_Some)
    qed
    from job iff row show "j \<in> set (jobs d) \<and> ID j = i \<and>
       (q \<noteq> None \<longleftrightarrow> failQC = None \<and> i \<in> set (map job_id (qc_results d))) \<and>
       (\<forall>r. q = Some r \<longrightarrow> r \<in> set (qc_results d) \<and> job_id r = i)"
      by blast
  qed
  show ?thesis
    by (intro conjI loop submit query)
qed

theorem done_jobs_have_results_witness:
  "done_has_result example_done_db \<and>
   list_all (\<lambda>p. done_has_result (snd p))
     (consume example_done_db [(example_env, Inr example_msg), (example_env, Inr missing_msg)]) \<and>
   (case handleGetJob None None example_done_db ''j1'' of
      HttpOK (j, q) \<Rightarrow> Status j = StDone \<and> q = Some example_row1
    | HttpError m c \<Rightarrow> False)"
proof -
  have h: "done_has_result example_done_db"
    by (simp add: done_has_result_def example_done_db_def example_row1_def)
  have g: "handleGetJob None None example_done_db ''j1'' =
      HttpOK (hd (jobs example_done_db), Some example_row1)"
    by (simp add: handleGetJob_def example_done_db_def example_row1_def)
  have s: "Status (hd (jobs example_done_db)) = StDone"
    by (simp add: example_done_db_def)
  from done_jobs_have_results[OF h,
      of "[(example_env, Inr example_msg), (example_env, Inr missing_msg)]"]
  have "\<forall>(ef, d')\<in>set (consume example_done_db
      [(example_env, Inr example_msg), (example_env, Inr missing_msg)]). done_has_result d'"
    by blast
  then have l: "list_all (\<lambda>p. done_has_result (snd p))
     (consume example_done_db [(example_env, Inr example_msg), (example_env, Inr missing_msg)])"
    unfolding list_all_iff by auto
  from h l show ?thesis
    unfolding g by (simp add: s)
qed

text \<open>
  The claim as worded fails between the upsert and the Done transition, and after a failed
  redelivery: a result row exists, and is returned by the query, while the job is in
  Processing, or in Failed.
\<close>

theorem result_without_done_counterexample:
  "map Status (jobs (snd (handleDelivery example_env example_db (Inr example_msg) ! 1)))
     = [StProcessing] \<and>
   map job_id (qc_results (snd (handleDelivery example_env example_db (Inr example_msg) ! 1)))
     = [''j1''] \<and>
   (case handleGetJob None None
           (snd (handleDelivery example_env example_db (Inr example_msg) ! 1)) ''j1'' of
      HttpOK (j, q) \<Rightarrow> Status j = StProcessing \<and> (case q of Some r \<Rightarrow> reads r = 2 | None \<Rightarrow> False)
    | HttpError m c \<Rightarrow> False) \<and>
   (case handleGetJob None None
           (finalDB example_env example_done_db (Inr missing_msg)) ''j1'' of
      HttpOK (j, q) \<Rightarrow> Status j = StError \<and> (case q of Some r \<Rightarrow> reads r = 2 | None \<Rightarrow> False)
    | HttpError m c \<Rightarrow> False)"
  by code_simp

end
